theory Spec2Isabelle
  imports Complex_Main "HOL-Library.Word"
begin

section \<open>JavaScript values used by the progress panel\<close>

text \<open>
  A JavaScript string is a sequence of UTF-16 code units.  String literals of the
  component that are plain ASCII are written through \<open>ascii\<close>; the others are given
  by their code units.
\<close>

type_synonym js_string = "16 word list"

definition ascii :: "string \<Rightarrow> js_string" where
  "ascii s = map of_char s"

text \<open>
  The value that \<^verbatim>\<open>JSON.parse\<close> returns.  An object is the list of its own properties
  (keys distinct, as in any parsed object).  The number payload is never inspected by
  the component.
\<close>

datatype json =
    JNull
  | JBool bool
  | JNumber real
  | JString js_string
  | JArray "json list"
  | JObject "(js_string \<times> json) list"

datatype js_error = SyntaxError | TypeError

text \<open>
  The property read \<^verbatim>\<open>data.type\<close>: it throws a TypeError on \<^verbatim>\<open>null\<close>, yields
  \<^verbatim>\<open>undefined\<close> (here \<open>None\<close>) on a primitive, on an array and on an object without
  that key, and the stored value otherwise.
\<close>

fun data_type :: "json \<Rightarrow> js_error + json option" where
  "data_type JNull = Inl TypeError"
| "data_type (JObject kvs) = Inr (map_of kvs (ascii ''type''))"
| "data_type (JBool b) = Inr None"
| "data_type (JNumber x) = Inr None"
| "data_type (JString x) = Inr None"
| "data_type (JArray xs) = Inr None"

definition hasType :: "string \<Rightarrow> json \<Rightarrow> bool" where
  "hasType t d \<longleftrightarrow> data_type d = Inr (Some (JString (ascii t)))"

text \<open>A frame of the shape the backend sends: type, message and timestamp.\<close>

definition progressEvent :: "string \<Rightarrow> js_string \<Rightarrow> real \<Rightarrow> json" where
  "progressEvent t m ts =
     JObject [(ascii ''type'', JString (ascii t)),
              (ascii ''message'', JString m),
              (ascii ''timestamp'', JNumber ts)]"


section \<open>What a reactive array keeps\<close>

text \<open>
  The step list is a Vue 3 \<^verbatim>\<open>ref([])\<close>: its value is a reactive proxy of an
  array, and \<^verbatim>\<open>push\<close> goes through the set trap of that proxy, which may unwrap the
  value before it stores it in the array.  Vue is not part of the repository, so the
  handler below takes what the array keeps for a pushed value as a parameter, and the
  step list of the model is the array underneath the proxy.  What follows is Vue's
  side of it.

  Truthiness of a parsed value (a parsed number is never NaN).
\<close>

fun truthy :: "json \<Rightarrow> bool" where
  "truthy JNull = False"
| "truthy (JBool b) = b"
| "truthy (JNumber x) = (x \<noteq> 0)"
| "truthy (JString s) = (s \<noteq> [])"
| "truthy (JArray xs) = True"
| "truthy (JObject kvs) = True"

text \<open>
  \<^verbatim>\<open>!!(value && value[key])\<close> for one of Vue's marker keys, which no prototype
  has: true for an object that has the key with a truthy value.
\<close>

fun flagged :: "string \<Rightarrow> json \<Rightarrow> bool" where
  "flagged k (JObject kvs) = (case map_of kvs (ascii k) of None \<Rightarrow> False | Some x \<Rightarrow> truthy x)"
| "flagged k JNull = False"
| "flagged k (JBool b) = False"
| "flagged k (JNumber x) = False"
| "flagged k (JString s) = False"
| "flagged k (JArray xs) = False"

lemma size_field:
  "map_of kvs k = Some r \<Longrightarrow> size r < size (JObject kvs)"
proof -
  assume "map_of kvs k = Some r"
  then have "(k, r) \<in> set kvs" by (rule map_of_SomeD)
  then show ?thesis
    by (induction kvs) auto
qed

text \<open>
  Vue's \<^verbatim>\<open>toRaw\<close>: as long as the value has a truthy \<^verbatim>\<open>__v_raw\<close> field, go on with
  that field.
\<close>

function toRaw :: "json \<Rightarrow> json" where
  "toRaw (JObject kvs) =
     (case map_of kvs (ascii ''__v_raw'') of
        None \<Rightarrow> JObject kvs
      | Some r \<Rightarrow> if truthy r then toRaw r else JObject kvs)"
| "toRaw JNull = JNull"
| "toRaw (JBool b) = JBool b"
| "toRaw (JNumber x) = JNumber x"
| "toRaw (JString s) = JString s"
| "toRaw (JArray xs) = JArray xs"
  by pat_completeness auto
termination
  by (relation "measure size") (auto dest: size_field)

text \<open>
  The set trap of a reactive array in current Vue 3: a value marked shallow or
  readonly is stored as it is, any other value is stored unwrapped.  Older releases of
  Vue 3 unwrap every value.
\<close>

definition vueKept :: "json \<Rightarrow> json" where
  "vueKept v =
     (if flagged ''__v_isShallow'' v \<or> flagged ''__v_isReadonly'' v then v else toRaw v)"

text \<open>
  What all these releases have in common: the array keeps the unwrapped value, or, for
  a value marked shallow or readonly, possibly the value itself.
\<close>

definition keepsAsVue :: "(json \<Rightarrow> json) \<Rightarrow> bool" where
  "keepsAsVue kept \<longleftrightarrow>
     (\<forall>v. kept v = toRaw v
        \<or> ((flagged ''__v_isShallow'' v \<or> flagged ''__v_isReadonly'' v) \<and> kept v = v))"



section \<open>The component state\<close>

text \<open>
  The four refs of \<^verbatim>\<open>setup()\<close> (the step list holds what the reactive array has
  kept for each pushed value), the variable \<^verbatim>\<open>eventSource\<close> (null or a reference to
  an EventSource object, here a handle), and what the component does to the world:
  the number of EventSource objects constructed so far (the next handle), the handles
  on which \<^verbatim>\<open>close()\<close> was called, in call order, the pending \<^verbatim>\<open>setTimeout\<close> callbacks
  (milliseconds left; the only callback ever scheduled is the delayed close), and the
  \<^verbatim>\<open>console.error\<close> log.
\<close>

datatype log_entry = ParseFailed js_error | ConnectionError

record panel =
  steps :: "json list"
  isProcessing :: bool
  isComplete :: bool
  hasError :: bool
  eventSource :: "nat option"
  created :: nat
  closeCalls :: "nat list"
  timers :: "nat list"
  console :: "log_entry list"

definition setup_state :: panel where
  "setup_state =
     \<lparr>steps = [], isProcessing = False, isComplete = False, hasError = False,
      eventSource = None, created = 0, closeCalls = [], timers = [], console = []\<rparr>"

text \<open>\<^verbatim>\<open>if (eventSource) { eventSource.close() }\<close>\<close>

definition close_eventSource :: "panel \<Rightarrow> panel" where
  "close_eventSource s =
     (case eventSource s of
        None \<Rightarrow> s
      | Some h \<Rightarrow> s\<lparr>closeCalls := closeCalls s @ [h]\<rparr>)"

text \<open>A connection is open when it was constructed and \<^verbatim>\<open>close()\<close> was never called on it.\<close>

definition connectionOpen :: "panel \<Rightarrow> nat \<Rightarrow> bool" where
  "connectionOpen s h \<longleftrightarrow> h < created s \<and> h \<notin> set (closeCalls s)"

definition connectProgressStream :: "panel \<Rightarrow> panel" where
  "connectProgressStream s = s\<lparr>eventSource := Some (created s), created := Suc (created s)\<rparr>"

text \<open>The state once \<^verbatim>\<open>onMounted\<close> has run.\<close>

definition mounted :: panel where
  "mounted = connectProgressStream setup_state"

text \<open>
  \<^verbatim>\<open>eventSource.onmessage\<close>.  The first argument is what the reactive array keeps
  for a pushed value, the last is the outcome of
  \<^verbatim>\<open>JSON.parse(event.data)\<close>: \<open>None\<close> when it throws.  Every exception of the
  \<^verbatim>\<open>try\<close> block ends in the \<^verbatim>\<open>catch\<close>, which only logs.  The \<^verbatim>\<open>switch\<close> compares
  with strict equality and has no default case.
\<close>

definition onmessage :: "(json \<Rightarrow> json) \<Rightarrow> panel \<Rightarrow> json option \<Rightarrow> panel" where
  "onmessage kept s parsed =
     (case parsed of
        None \<Rightarrow> s\<lparr>console := console s @ [ParseFailed SyntaxError]\<rparr>
      | Some d \<Rightarrow>
          (case data_type d of
             Inl e \<Rightarrow> s\<lparr>console := console s @ [ParseFailed e]\<rparr>
           | Inr t \<Rightarrow>
               if t = Some (JString (ascii ''start'')) then
                 s\<lparr>steps := [kept d], isProcessing := True, isComplete := False,
                   hasError := False\<rparr>
               else if t = Some (JString (ascii ''step'')) then
                 s\<lparr>steps := steps s @ [kept d]\<rparr>
               else if t = Some (JString (ascii ''complete'')) then
                 s\<lparr>steps := steps s @ [kept d], isProcessing := False, isComplete := True,
                   timers := timers s @ [3000]\<rparr>
               else if t = Some (JString (ascii ''error'')) then
                 close_eventSource
                   (s\<lparr>steps := steps s @ [kept d], isProcessing := False, hasError := True\<rparr>)
               else s))"

text \<open>The frames of a stream, handled one at a time in arrival order.\<close>

fun run :: "(json \<Rightarrow> json) \<Rightarrow> panel \<Rightarrow> json option list \<Rightarrow> panel" where
  "run kept s [] = s"
| "run kept s (f # fs) = run kept (onmessage kept s f) fs"

text \<open>
  Time passes: every pending timer whose delay has elapsed runs its callback (the
  delayed close of the \<^verbatim>\<open>complete\<close> case, which reads \<^verbatim>\<open>eventSource\<close> when it fires),
  the others get closer.
\<close>

definition elapse :: "nat \<Rightarrow> panel \<Rightarrow> panel" where
  "elapse ms s =
     fold (\<lambda>_. close_eventSource) (filter (\<lambda>t. t \<le> ms) (timers s))
       (s\<lparr>timers := map (\<lambda>t. t - ms) (filter (\<lambda>t. ms < t) (timers s))\<rparr>)"

text \<open>\<^verbatim>\<open>eventSource.onerror\<close>\<close>

definition onerror :: "panel \<Rightarrow> panel" where
  "onerror s =
     (let s1 = s\<lparr>console := console s @ [ConnectionError]\<rparr> in
      case eventSource s1 of
        None \<Rightarrow> s1
      | Some h \<Rightarrow> (close_eventSource s1)\<lparr>eventSource := None\<rparr>)"

definition reset :: "panel \<Rightarrow> panel" where
  "reset s = s\<lparr>steps := [], isProcessing := False, isComplete := False, hasError := False\<rparr>"

definition onUnmounted :: "panel \<Rightarrow> panel" where
  "onUnmounted s = close_eventSource s"


section \<open>Formatting a step message\<close>

text \<open>
  \<^verbatim>\<open>formatMessage\<close> calls \<^verbatim>\<open>String.prototype.replace\<close> twice, each time with a global
  regular expression.  Both expressions are built from two kinds of items only: a
  literal code unit, and a capture group around a greedy, one-or-more repetition of a
  negated one-character class (\<^verbatim>\<open>([^c]+)\<close>).  Without the \<^verbatim>\<open>u\<close> flag the expression
  works on code units, and a negated class also accepts a line feed.
\<close>

datatype rx_item = Chr "16 word" | GroupNotPlus "16 word"

fun firstSome :: "'a option list \<Rightarrow> 'a option" where
  "firstSome [] = None"
| "firstSome (None # xs) = firstSome xs"
| "firstSome (Some x # xs) = Some x"

text \<open>
  A match of the items at the start of the input: the captures, in group order, and
  the input left after the match.  A group first takes the longest run it can and
  gives code units back one at a time, down to one, until the rest of the expression
  matches (backtracking).
\<close>

fun rx_match :: "rx_item list \<Rightarrow> js_string \<Rightarrow> (js_string list \<times> js_string) option" where
  "rx_match [] s = Some ([], s)"
| "rx_match (Chr c # p) [] = None"
| "rx_match (Chr c # p) (x # xs) = (if x = c then rx_match p xs else None)"
| "rx_match (GroupNotPlus c # p) s =
     firstSome
       (map (\<lambda>n. case rx_match p (drop n s) of
                   None \<Rightarrow> None
                 | Some (caps, rest) \<Rightarrow> Some (take n s # caps, rest))
            (rev [1..<Suc (length (takeWhile (\<lambda>x. x \<noteq> c) s))]))"

text \<open>
  \<^verbatim>\<open>replace\<close> with the \<^verbatim>\<open>g\<close> flag: the input is scanned from the left; a match is
  replaced and the scan goes on after it, a code unit where nothing matches is copied.
  After an empty match the scan moves on by one code unit.
\<close>

fun replaceAll ::
  "rx_item list \<Rightarrow> (js_string list \<Rightarrow> js_string) \<Rightarrow> js_string \<Rightarrow> js_string" where
  "replaceAll p f [] = (case rx_match p [] of None \<Rightarrow> [] | Some (caps, rest) \<Rightarrow> f caps)"
| "replaceAll p f (x # xs) =
     (case rx_match p (x # xs) of
        None \<Rightarrow> x # replaceAll p f xs
      | Some (caps, rest) \<Rightarrow>
          if length rest \<le> length xs then f caps @ replaceAll p f rest
          else f caps @ x # replaceAll p f xs)"

text \<open>
  A replacement string: literal text and references \<^verbatim>\<open>$1\<close> to \<^verbatim>\<open>$9\<close>.  A reference
  to a group that the expression does not have stays as it is written.
\<close>

datatype tpl_item = Txt js_string | Grp nat

fun expand :: "tpl_item list \<Rightarrow> js_string list \<Rightarrow> js_string" where
  "expand [] caps = []"
| "expand (Txt t # r) caps = t @ expand r caps"
| "expand (Grp k # r) caps =
     (if 1 \<le> k \<and> k \<le> length caps then caps ! (k - 1) else [0x24, 0x30 + of_nat k])
     @ expand r caps"

text \<open>The page emoji that opens a file link, a surrogate pair.\<close>

definition fileEmoji :: js_string where
  "fileEmoji = [0xD83D, 0xDCC4]"

text \<open>
  The first expression: the emoji, a space, \<^verbatim>\<open>\[([^\]]+)\]\(([^)]+)\)\<close>; and its
  replacement string.
\<close>

definition linkPattern :: "rx_item list" where
  "linkPattern =
     [Chr 0xD83D, Chr 0xDCC4, Chr 0x20, Chr 0x5B, GroupNotPlus 0x5D, Chr 0x5D, Chr 0x28,
      GroupNotPlus 0x29, Chr 0x29]"

definition linkTemplate :: "tpl_item list" where
  \<open>linkTemplate =
     [Txt (ascii ''<a href="http://localhost:8765''), Grp 2,
      Txt (ascii ''" target="_blank" class="file-link">'' @ fileEmoji @ ascii '' ''), Grp 1,
      Txt (ascii ''</a>'')]\<close>

definition formatMessage :: "js_string \<Rightarrow> js_string" where
  "formatMessage message =
     replaceAll [Chr 0x0A] (expand [Txt (ascii ''<br>'')])
       (replaceAll linkPattern (expand linkTemplate) message)"

text \<open>The first of the two calls, on its own.\<close>

definition linkify :: "js_string \<Rightarrow> js_string" where
  "linkify message = replaceAll linkPattern (expand linkTemplate) message"

section \<open>The status shown in the header\<close>

text \<open>
  The computed \<^verbatim>\<open>statusClass\<close> and \<^verbatim>\<open>statusText\<close>.  The texts are not ASCII and are
  given by their UTF-16 code units: a cross mark and the two characters for "failed",
  a check mark and "completed", the arrows emoji (a surrogate pair) and "processing",
  the pause sign with its variation selector and "waiting".
\<close>

definition statusClass :: "panel \<Rightarrow> js_string" where
  "statusClass s =
     (if hasError s then ascii ''status-error''
      else if isComplete s then ascii ''status-complete''
      else if isProcessing s then ascii ''status-processing''
      else ascii ''status-idle'')"

definition statusText :: "panel \<Rightarrow> js_string" where
  "statusText s =
     (if hasError s then [0x274C, 0x20, 0x5931, 0x8D25]
      else if isComplete s then [0x2705, 0x20, 0x5B8C, 0x6210]
      else if isProcessing s then [0xD83D, 0xDD04, 0x20, 0x5904, 0x7406, 0x4E2D]
      else [0x23F8, 0xFE0F, 0x20, 0x7B49, 0x5F85])"


section \<open>The specification's vocabulary\<close>

text \<open>
  The four badges of the specification, with the class and the text the component
  shows for each, their priority (error over complete over processing over idle), and
  the flag that raises each: idle needs none.
\<close>

datatype badge = Idle | Processing | Complete | Failed

fun badgeClass :: "badge \<Rightarrow> js_string" where
  "badgeClass Idle = ascii ''status-idle''"
| "badgeClass Processing = ascii ''status-processing''"
| "badgeClass Complete = ascii ''status-complete''"
| "badgeClass Failed = ascii ''status-error''"

fun badgeText :: "badge \<Rightarrow> js_string" where
  "badgeText Idle = [0x23F8, 0xFE0F, 0x20, 0x7B49, 0x5F85]"
| "badgeText Processing = [0xD83D, 0xDD04, 0x20, 0x5904, 0x7406, 0x4E2D]"
| "badgeText Complete = [0x2705, 0x20, 0x5B8C, 0x6210]"
| "badgeText Failed = [0x274C, 0x20, 0x5931, 0x8D25]"

fun priority :: "badge \<Rightarrow> nat" where
  "priority Idle = 0"
| "priority Processing = 1"
| "priority Complete = 2"
| "priority Failed = 3"

fun raised :: "panel \<Rightarrow> badge \<Rightarrow> bool" where
  "raised s Idle = True"
| "raised s Processing = isProcessing s"
| "raised s Complete = isComplete s"
| "raised s Failed = hasError s"

definition allBadges :: "badge list" where
  "allBadges = [Idle, Processing, Complete, Failed]"

text \<open>The badge the specification selects: raised, and of the highest priority among the raised.\<close>

definition topBadge :: "panel \<Rightarrow> badge \<Rightarrow> bool" where
  "topBadge s b \<longleftrightarrow>
     raised s b \<and> list_all (\<lambda>b'. raised s b' \<longrightarrow> priority b' \<le> priority b) allBadges"

text \<open>
  The file-link rule of the specification.  A token is the emoji, a space, a label in
  square brackets and a path in round brackets; the label is not empty and has no
  closing square bracket, the path is not empty and has no closing round bracket.  The
  link for it has the backend origin followed by the path as its address, and the
  emoji, a space and the label as its text.
\<close>

definition token :: "js_string \<Rightarrow> js_string \<Rightarrow> js_string" where
  "token label path = fileEmoji @ ascii '' ['' @ label @ ascii '']('' @ path @ ascii '')''"

definition wellFormedLink :: "js_string \<Rightarrow> js_string \<Rightarrow> bool" where
  "wellFormedLink label path \<longleftrightarrow>
     label \<noteq> [] \<and> 0x5D \<notin> set label \<and> path \<noteq> [] \<and> 0x29 \<notin> set path"

definition backendOrigin :: js_string where
  "backendOrigin = ascii ''http://localhost:8765''"

definition anchor :: "js_string \<Rightarrow> js_string \<Rightarrow> js_string" where
  \<open>anchor href txt =
     ascii ''<a href="'' @ href @ ascii ''" target="_blank" class="file-link">'' @ txt
     @ ascii ''</a>''\<close>

definition fileLink :: "js_string \<Rightarrow> js_string \<Rightarrow> js_string" where
  "fileLink label path = anchor (backendOrigin @ path) (fileEmoji @ ascii '' '' @ label)"

text \<open>
  The rewriting of a message, read from the left: where a token starts, its link is
  written and reading goes on after the token; where none starts, the code unit is
  copied.
\<close>

inductive linksRewritten :: "js_string \<Rightarrow> js_string \<Rightarrow> bool" where
  finished: "linksRewritten [] []"
| link: "wellFormedLink label path \<Longrightarrow> linksRewritten rest out \<Longrightarrow>
     linksRewritten (token label path @ rest) (fileLink label path @ out)"
| copy: "(\<forall>label path rest. wellFormedLink label path \<longrightarrow>
        x # xs \<noteq> token label path @ rest) \<Longrightarrow>
     linksRewritten xs out \<Longrightarrow> linksRewritten (x # xs) (x # out)"

text \<open>The line-break convention of the display: every line feed becomes \<^verbatim>\<open><br>\<close>.\<close>

definition lineBreaks :: "js_string \<Rightarrow> js_string" where
  "lineBreaks s = concat (map (\<lambda>c. if c = 0x0A then ascii ''<br>'' else [c]) s)"

text \<open>A state with all three flags set at once, to see which badge wins.\<close>

definition allRaised :: panel where
  "allRaised = mounted\<lparr>isProcessing := True, isComplete := True, hasError := True\<rparr>"

text \<open>
  The stream invariant of the specification: a \<^verbatim>\<open>start\<close> frame opens a job and only
  arrives when no job is open; a \<^verbatim>\<open>complete\<close> or \<^verbatim>\<open>error\<close> frame closes the open job and
  only arrives when one is open.  Any other frame (a step, an unknown type, a frame
  that does not parse) may arrive at any time.  The first argument tells whether a job
  is open.
\<close>

definition frameHasType :: "string \<Rightarrow> json option \<Rightarrow> bool" where
  "frameHasType t f = (case f of None \<Rightarrow> False | Some d \<Rightarrow> hasType t d)"

fun followsProtocol :: "bool \<Rightarrow> json option list \<Rightarrow> bool" where
  "followsProtocol inJob [] = True"
| "followsProtocol inJob (f # fs) =
     (if frameHasType ''start'' f then \<not> inJob \<and> followsProtocol True fs
      else if frameHasType ''complete'' f \<or> frameHasType ''error'' f
        then inJob \<and> followsProtocol False fs
      else followsProtocol inJob fs)"


section \<open>The handler, case by case\<close>

lemma type_tags_distinct:
  "ascii ''start'' \<noteq> ascii ''step''" "ascii ''start'' \<noteq> ascii ''complete''"
  "ascii ''start'' \<noteq> ascii ''error''" "ascii ''step'' \<noteq> ascii ''complete''"
  "ascii ''step'' \<noteq> ascii ''error''" "ascii ''complete'' \<noteq> ascii ''error''"
  by (simp_all add: ascii_def)

lemma hasType_progressEvent: "hasType t (progressEvent t m ts)"
  by (simp add: hasType_def progressEvent_def)

text \<open>What the array keeps, for values with and without the \<^verbatim>\<open>__v_raw\<close> field.\<close>

lemma toRaw_unflagged: "\<not> flagged ''__v_raw'' v \<Longrightarrow> toRaw v = v"
  by (cases v) (auto split: option.splits)

lemma keepsAsVue_same: "keepsAsVue kept \<Longrightarrow> \<not> flagged ''__v_raw'' v \<Longrightarrow> kept v = v"
  unfolding keepsAsVue_def using toRaw_unflagged by metis

lemma keepsAsVue_vueKept: "keepsAsVue vueKept"
  by (simp add: keepsAsVue_def vueKept_def)

lemma keepsAsVue_toRaw: "keepsAsVue toRaw"
  by (simp add: keepsAsVue_def)

lemma unflagged_progressEvent: "\<not> flagged ''__v_raw'' (progressEvent t m ts)"
  by (simp add: progressEvent_def ascii_def)

lemma vueKept_progressEvent: "vueKept (progressEvent t m ts) = progressEvent t m ts"
  using keepsAsVue_vueKept unflagged_progressEvent by (rule keepsAsVue_same)




lemma mounted_fields:
  "steps mounted = []" "\<not> isProcessing mounted" "\<not> isComplete mounted"
  "\<not> hasError mounted" "eventSource mounted = Some 0" "created mounted = Suc 0"
  "closeCalls mounted = []" "timers mounted = []" "console mounted = []"
  by (simp_all add: mounted_def connectProgressStream_def setup_state_def)

lemma onmessage_malformed:
  "onmessage kept s None = s\<lparr>console := console s @ [ParseFailed SyntaxError]\<rparr>"
  by (simp add: onmessage_def)

lemma onmessage_start:
  "hasType ''start'' d \<Longrightarrow>
   onmessage kept s (Some d) =
     s\<lparr>steps := [kept d], isProcessing := True, isComplete := False, hasError := False\<rparr>"
  by (simp add: onmessage_def hasType_def)

lemma onmessage_step:
  "hasType ''step'' d \<Longrightarrow> onmessage kept s (Some d) = s\<lparr>steps := steps s @ [kept d]\<rparr>"
  using type_tags_distinct by (simp add: onmessage_def hasType_def)

lemma onmessage_complete:
  "hasType ''complete'' d \<Longrightarrow>
   onmessage kept s (Some d) =
     s\<lparr>steps := steps s @ [kept d], isProcessing := False, isComplete := True,
       timers := timers s @ [3000]\<rparr>"
  using type_tags_distinct by (simp add: onmessage_def hasType_def)

lemma onmessage_error:
  "hasType ''error'' d \<Longrightarrow>
   onmessage kept s (Some d) =
     close_eventSource (s\<lparr>steps := steps s @ [kept d], isProcessing := False, hasError := True\<rparr>)"
  using type_tags_distinct by (simp add: onmessage_def hasType_def)

lemma close_eventSource_fields:
  "steps (close_eventSource s) = steps s" "isProcessing (close_eventSource s) = isProcessing s"
  "isComplete (close_eventSource s) = isComplete s" "hasError (close_eventSource s) = hasError s"
  "eventSource (close_eventSource s) = eventSource s" "created (close_eventSource s) = created s"
  "timers (close_eventSource s) = timers s" "console (close_eventSource s) = console s"
  by (simp_all add: close_eventSource_def split: option.splits)

text \<open>What a frame does to the two terminal flags, by the kind of the frame.\<close>

lemma onmessage_flags_start:
  "frameHasType ''start'' f \<Longrightarrow>
   \<not> isComplete (onmessage kept s f) \<and> \<not> hasError (onmessage kept s f)"
  by (auto simp: frameHasType_def onmessage_start split: option.splits)

lemma onmessage_flags_complete:
  "frameHasType ''complete'' f \<Longrightarrow>
   isComplete (onmessage kept s f) \<and> hasError (onmessage kept s f) = hasError s"
  by (auto simp: frameHasType_def onmessage_complete split: option.splits)

lemma onmessage_flags_error:
  "frameHasType ''error'' f \<Longrightarrow>
   hasError (onmessage kept s f) \<and> isComplete (onmessage kept s f) = isComplete s"
  by (auto simp: frameHasType_def onmessage_error close_eventSource_fields
      split: option.splits)

lemma onmessage_flags_other:
  "\<not> frameHasType ''start'' f \<Longrightarrow> \<not> frameHasType ''complete'' f \<Longrightarrow>
   \<not> frameHasType ''error'' f \<Longrightarrow>
   isComplete (onmessage kept s f) = isComplete s \<and> hasError (onmessage kept s f) = hasError s"
  by (auto simp: frameHasType_def hasType_def onmessage_def split: option.splits sum.splits)

text \<open>Timers that fire while \<^verbatim>\<open>eventSource\<close> refers to a connection each close it.\<close>

lemma fold_close_eventSource:
  "eventSource s = Some h \<Longrightarrow>
   fold (\<lambda>_. close_eventSource) ts s
     = s\<lparr>closeCalls := closeCalls s @ replicate (length ts) h\<rparr>"
proof (induction ts arbitrary: s)
  case Nil
  then show ?case by simp
next
  case (Cons t ts)
  have "eventSource (close_eventSource s) = Some h"
    using Cons.prems by (simp add: close_eventSource_fields)
  from Cons.IH [OF this] Cons.prems show ?case
    by (simp add: close_eventSource_def replicate_append_same)
qed

lemma elapse_open:
  "eventSource s = Some h \<Longrightarrow>
   elapse ms s =
     s\<lparr>timers := map (\<lambda>t. t - ms) (filter (\<lambda>t. ms < t) (timers s)),
       closeCalls :=
         closeCalls s @ replicate (length (filter (\<lambda>t. t \<le> ms) (timers s))) h\<rparr>"
  by (simp add: elapse_def fold_close_eventSource)


section \<open>Reset\<close>

text \<open>
  Claim C8.  Whatever the state, \<^verbatim>\<open>reset()\<close> empties the step list and clears the three
  flags, and nothing else changes: the \<^verbatim>\<open>eventSource\<close> reference, the number of
  connections opened, the \<^verbatim>\<open>close()\<close> calls made and the pending timers are those of
  the state before.
\<close>

theorem reset_clears_state_only:
  "steps (reset s) = [] \<and> \<not> isProcessing (reset s) \<and> \<not> isComplete (reset s)
   \<and> \<not> hasError (reset s)
   \<and> eventSource (reset s) = eventSource s \<and> created (reset s) = created s
   \<and> closeCalls (reset s) = closeCalls s \<and> timers (reset s) = timers s
   \<and> (\<forall>h. connectionOpen (reset s) h = connectionOpen s h)"
  by (simp add: reset_def connectionOpen_def)


section \<open>One job, from start to complete\<close>





section \<open>A new start after a finished job\<close>





section \<open>A job that fails\<close>





section \<open>A frame that does not parse\<close>

text \<open>
  Claim C4.  Take a component in the processing phase whose connection is open, and
  let a frame that fails to parse arrive between two step frames.  Handling the
  malformed frame only adds a line to the error log: the length of the step list, the
  three flags (so the phase, still processing) and the connection (still referred to,
  still open) are as before it.  After the second step frame the step list is the
  original one followed by what the reactive array keeps for the two step events.
\<close>

theorem malformed_frame_discarded:
  assumes "isProcessing s" and "\<not> isComplete s" and "\<not> hasError s"
    and "eventSource s = Some h" and "connectionOpen s h"
    and "hasType ''step'' e1" and "hasType ''step'' e2"
  shows "run kept s [Some e1, None]
       = (run kept s [Some e1])
           \<lparr>console := console (run kept s [Some e1]) @ [ParseFailed SyntaxError]\<rparr>
     \<and> length (steps (run kept s [Some e1, None])) = length (steps (run kept s [Some e1]))
     \<and> isProcessing (run kept s [Some e1, None])
     \<and> \<not> isComplete (run kept s [Some e1, None])
     \<and> \<not> hasError (run kept s [Some e1, None])
     \<and> statusClass (run kept s [Some e1, None]) = ascii ''status-processing''
     \<and> eventSource (run kept s [Some e1, None]) = Some h
     \<and> connectionOpen (run kept s [Some e1, None]) h
     \<and> steps (run kept s [Some e1, None, Some e2]) = steps s @ [kept e1, kept e2]
     \<and> length (steps (run kept s [Some e1, None, Some e2])) = length (steps s) + 2
     \<and> statusClass (run kept s [Some e1, None, Some e2]) = ascii ''status-processing''"
  using assms
  by (simp add: onmessage_step onmessage_malformed connectionOpen_def statusClass_def)

theorem malformed_frame_discarded_witness:
  "steps (run vueKept (run vueKept mounted [Some (progressEvent ''start'' (ascii ''begin'') 10)])
      [Some (progressEvent ''step'' (ascii ''read'') 11), None,
       Some (progressEvent ''step'' (ascii ''write'') 12)])
   = [progressEvent ''start'' (ascii ''begin'') 10,
      progressEvent ''step'' (ascii ''read'') 11,
      progressEvent ''step'' (ascii ''write'') 12]
   \<and> connectionOpen
       (run vueKept (run vueKept mounted [Some (progressEvent ''start'' (ascii ''begin'') 10)])
         [Some (progressEvent ''step'' (ascii ''read'') 11), None]) 0"
proof -
  let ?s = "run vueKept mounted [Some (progressEvent ''start'' (ascii ''begin'') 10)]"
  have s: "onmessage vueKept mounted (Some (progressEvent ''start'' (ascii ''begin'') 10))
      = mounted\<lparr>steps := [progressEvent ''start'' (ascii ''begin'') 10],
          isProcessing := True, isComplete := False, hasError := False\<rparr>"
    by (simp add: onmessage_start hasType_progressEvent vueKept_progressEvent)
  have p: "isProcessing ?s" "\<not> isComplete ?s" "\<not> hasError ?s"
    by (simp_all add: s)
  have h: "eventSource ?s = Some 0"
    by (simp add: s mounted_fields)
  have o: "connectionOpen ?s 0"
    by (simp add: s mounted_fields connectionOpen_def)
  note w = malformed_frame_discarded
      [OF p h o hasType_progressEvent [of "''step''" "ascii ''read''" 11]
          hasType_progressEvent [of "''step''" "ascii ''write''" 12],
        where kept = vueKept]
  have a: "steps (run vueKept ?s [Some (progressEvent ''step'' (ascii ''read'') 11), None,
       Some (progressEvent ''step'' (ascii ''write'') 12)])
     = steps ?s @ [vueKept (progressEvent ''step'' (ascii ''read'') 11),
         vueKept (progressEvent ''step'' (ascii ''write'') 12)]"
    using w by blast
  have b: "connectionOpen
      (run vueKept ?s [Some (progressEvent ''step'' (ascii ''read'') 11), None]) 0"
    using w by blast
  have c: "steps ?s = [progressEvent ''start'' (ascii ''begin'') 10]"
    by (simp add: s)
  show ?thesis
    using a b c by (simp add: vueKept_progressEvent)
qed


section \<open>A step with no job\<close>





section \<open>The terminal flags\<close>

lemma protocol_invariant:
  "followsProtocol j fs \<Longrightarrow> \<not> (isComplete s \<and> hasError s) \<Longrightarrow>
   (j \<longrightarrow> \<not> isComplete s \<and> \<not> hasError s) \<Longrightarrow>
   \<not> (isComplete (run kept s (take n fs)) \<and> hasError (run kept s (take n fs)))"
proof (induction fs arbitrary: j s n)
  case Nil
  then show ?case by simp
next
  case (Cons f fs)
  show ?case
  proof (cases n)
    case 0
    with Cons.prems show ?thesis by simp
  next
    case (Suc m)
    consider (start) "frameHasType ''start'' f"
      | (terminal) "\<not> frameHasType ''start'' f"
          "frameHasType ''complete'' f \<or> frameHasType ''error'' f"
      | (other) "\<not> frameHasType ''start'' f" "\<not> frameHasType ''complete'' f"
          "\<not> frameHasType ''error'' f"
      by blast
    then show ?thesis
    proof cases
      case start
      with Cons.prems have p: "followsProtocol True fs" by simp
      from start
      have q: "\<not> isComplete (onmessage kept s f) \<and> \<not> hasError (onmessage kept s f)"
        by (rule onmessage_flags_start)
      from Cons.IH [OF p, where s = "onmessage kept s f" and n = m] q show ?thesis
        by (simp add: Suc)
    next
      case terminal
      with Cons.prems have p: "followsProtocol False fs" and j: j by simp_all
      from j Cons.prems have c: "\<not> isComplete s" "\<not> hasError s" by simp_all
      from terminal(2) c
      have q: "\<not> (isComplete (onmessage kept s f) \<and> hasError (onmessage kept s f))"
        using onmessage_flags_complete [where f = f and s = s and kept = kept]
          onmessage_flags_error [where f = f and s = s and kept = kept]
        by blast
      from Cons.IH [OF p q, where n = m] show ?thesis by (simp add: Suc)
    next
      case other
      with Cons.prems have p: "followsProtocol j fs" by simp
      from other
      have q: "isComplete (onmessage kept s f) = isComplete s
          \<and> hasError (onmessage kept s f) = hasError s"
        by (rule onmessage_flags_other)
      from Cons.IH [OF p, where s = "onmessage kept s f" and n = m] q Cons.prems(2,3)
      show ?thesis
        by (simp add: Suc)
    qed
  qed
qed


lemma both_flags_without_protocol:
  "isComplete (run kept mounted
      [Some (progressEvent ''start'' m1 t1), Some (progressEvent ''complete'' m2 t2),
       Some (progressEvent ''error'' m3 t3)])
   \<and> hasError (run kept mounted
      [Some (progressEvent ''start'' m1 t1), Some (progressEvent ''complete'' m2 t2),
       Some (progressEvent ''error'' m3 t3)])"
  by (simp add: onmessage_start onmessage_complete onmessage_error hasType_progressEvent
      close_eventSource_fields)

text \<open>
  Claim C5.  Let the frames of a stream follow the stream invariant: a start only when
  no job is open, a complete or error only when one is.  Then no state that the
  component reaches from its mounted state, after any number of these frames, has
  both \<open>isComplete\<close> and \<open>hasError\<close> set.  (The complete case never clears
  \<open>hasError\<close> and the error case never clears \<open>isComplete\<close>; the invariant is what
  keeps the two apart, as the lemma above shows for an error after a complete.)
\<close>

theorem terminal_flags_exclusive:
  assumes "followsProtocol False fs"
  shows "\<forall>n. \<not> (isComplete (run kept mounted (take n fs))
            \<and> hasError (run kept mounted (take n fs)))"
  using assms protocol_invariant [where j = False and fs = fs and s = mounted]
  by (simp add: mounted_fields)

theorem terminal_flags_exclusive_witness:
  "followsProtocol False
     [Some (progressEvent ''start'' (ascii ''first job'') 10),
      Some (progressEvent ''step'' (ascii ''work'') 11),
      Some (progressEvent ''complete'' (ascii ''done'') 12),
      Some (progressEvent ''start'' (ascii ''second job'') 13),
      Some (progressEvent ''error'' (ascii ''failed'') 14)]
   \<and> \<not> (isComplete (run vueKept mounted
       [Some (progressEvent ''start'' (ascii ''first job'') 10),
        Some (progressEvent ''step'' (ascii ''work'') 11),
        Some (progressEvent ''complete'' (ascii ''done'') 12),
        Some (progressEvent ''start'' (ascii ''second job'') 13),
        Some (progressEvent ''error'' (ascii ''failed'') 14)])
     \<and> hasError (run vueKept mounted
       [Some (progressEvent ''start'' (ascii ''first job'') 10),
        Some (progressEvent ''step'' (ascii ''work'') 11),
        Some (progressEvent ''complete'' (ascii ''done'') 12),
        Some (progressEvent ''start'' (ascii ''second job'') 13),
        Some (progressEvent ''error'' (ascii ''failed'') 14)]))"
proof -
  let ?fs = "[Some (progressEvent ''start'' (ascii ''first job'') 10),
      Some (progressEvent ''step'' (ascii ''work'') 11),
      Some (progressEvent ''complete'' (ascii ''done'') 12),
      Some (progressEvent ''start'' (ascii ''second job'') 13),
      Some (progressEvent ''error'' (ascii ''failed'') 14)]"
  have p: "followsProtocol False ?fs"
    using type_tags_distinct
    by (simp add: frameHasType_def hasType_def progressEvent_def)
  have t: "take (length ?fs) ?fs = ?fs"
    by (rule take_all) (rule order_refl)
  have "\<not> (isComplete (run vueKept mounted (take (length ?fs) ?fs))
      \<and> hasError (run vueKept mounted (take (length ?fs) ?fs)))"
    using terminal_flags_exclusive [OF p, where kept = vueKept] by blast
  then have "\<not> (isComplete (run vueKept mounted ?fs) \<and> hasError (run vueKept mounted ?fs))"
    unfolding t .
  with p show ?thesis
    by blast
qed


section \<open>The status badge\<close>

lemma topBadge_iff:
  "topBadge s b \<longleftrightarrow>
     b = (if hasError s then Failed else if isComplete s then Complete
          else if isProcessing s then Processing else Idle)"
  by (cases b) (auto simp: topBadge_def allBadges_def)

text \<open>
  Claim C9.  Whatever the three flags, exactly one badge is raised with the highest
  priority among the raised ones, in the order error, complete, processing, idle (idle
  being raised always), and the class and the text that the component shows are the
  class and the text of that badge and of no other.
\<close>

theorem status_badge_priority:
  "(\<exists>!b. topBadge s b)
   \<and> (\<forall>b. topBadge s b \<longleftrightarrow> statusClass s = badgeClass b \<and> statusText s = badgeText b)"
proof -
  have c: "statusClass s = badgeClass b \<and> statusText s = badgeText b \<longleftrightarrow> topBadge s b" for b
    unfolding topBadge_iff
    by (cases b) (simp_all add: statusClass_def statusText_def ascii_def)
  have u: "\<exists>!b. topBadge s b"
    unfolding topBadge_iff by simp
  from c u show ?thesis by blast
qed

theorem status_badge_priority_witness:
  "topBadge allRaised Failed
   \<and> statusClass allRaised = ascii ''status-error''
   \<and> statusText allRaised = [0x274C, 0x20, 0x5931, 0x8D25]"
proof -
  have t: "topBadge allRaised Failed"
    by (simp add: topBadge_def allBadges_def allRaised_def)
  with status_badge_priority [of allRaised] show ?thesis
    by simp
qed



section \<open>The delayed close and a new job\<close>

text \<open>
  Claim C6, as the specification words it, fails: nothing cancels or guards the
  delayed close.  Here a job completes, a second job starts one second later on the
  same connection, which is open at that moment, and two seconds later the callback
  of the first job closes it.
\<close>

theorem stale_timer_counterexample:
  "connectionOpen (onmessage vueKept (elapse 1000
       (run vueKept mounted [Some (progressEvent ''start'' (ascii ''first job'') 10),
                     Some (progressEvent ''complete'' (ascii ''done'') 12)]))
       (Some (progressEvent ''start'' (ascii ''second job'') 13))) 0
   \<and> \<not> connectionOpen (elapse 2000 (onmessage vueKept (elapse 1000
       (run vueKept mounted [Some (progressEvent ''start'' (ascii ''first job'') 10),
                     Some (progressEvent ''complete'' (ascii ''done'') 12)]))
       (Some (progressEvent ''start'' (ascii ''second job'') 13)))) 0"
  by (simp add: onmessage_start onmessage_complete hasType_progressEvent elapse_def
      mounted_fields connectionOpen_def close_eventSource_def)


text \<open>
  Claim C6, amended.  When a complete frame has scheduled the close and a start frame
  arrives within the three seconds, the start leaves the pending timer as it is; when
  the three seconds are over the callback calls \<^verbatim>\<open>close()\<close> on the connection that
  \<^verbatim>\<open>eventSource\<close> refers to (the list of calls grows by at least this one), while
  the new job is processing with what the array keeps for the start event as its only
  step.
\<close>

theorem stale_timer_closes_new_job:
  assumes "eventSource s = Some h" and "hasType ''complete'' c" and "hasType ''start'' e"
    and "d < 3000"
  shows "timers (onmessage kept (elapse d (onmessage kept s (Some c))) (Some e))
       = timers (elapse d (onmessage kept s (Some c)))
     \<and> 3000 - d
         \<in> set (timers (onmessage kept (elapse d (onmessage kept s (Some c))) (Some e)))
     \<and> isProcessing
         (elapse (3000 - d) (onmessage kept (elapse d (onmessage kept s (Some c))) (Some e)))
     \<and> steps (elapse (3000 - d) (onmessage kept (elapse d (onmessage kept s (Some c))) (Some e)))
       = [kept e]
     \<and> (\<exists>k. 0 < k
          \<and> closeCalls
              (elapse (3000 - d) (onmessage kept (elapse d (onmessage kept s (Some c))) (Some e)))
            = closeCalls (onmessage kept (elapse d (onmessage kept s (Some c))) (Some e))
              @ replicate k h)
     \<and> h \<in> set (closeCalls
          (elapse (3000 - d) (onmessage kept (elapse d (onmessage kept s (Some c))) (Some e))))
     \<and> \<not> connectionOpen
          (elapse (3000 - d) (onmessage kept (elapse d (onmessage kept s (Some c))) (Some e))) h"
proof -
  let ?c1 = "onmessage kept s (Some c)"
  let ?s1 = "elapse d ?c1"
  let ?s2 = "onmessage kept ?s1 (Some e)"
  have c1: "eventSource ?c1 = Some h" "timers ?c1 = timers s @ [3000]"
    using assms by (simp_all add: onmessage_complete)
  have s1: "eventSource ?s1 = Some h" "3000 - d \<in> set (timers ?s1)"
    using assms(4) by (simp_all add: elapse_open [OF c1(1)] c1)
  have s2: "?s2 = ?s1\<lparr>steps := [kept e], isProcessing := True, isComplete := False,
      hasError := False\<rparr>"
    using assms(3) by (rule onmessage_start)
  have e2: "eventSource ?s2 = Some h" and t2: "timers ?s2 = timers ?s1"
    and p2: "isProcessing ?s2" "steps ?s2 = [kept e]"
    using s1 by (simp_all add: s2)
  have due: "filter (\<lambda>t. t \<le> 3000 - d) (timers ?s2) \<noteq> []"
    using s1(2) t2 by (auto simp: filter_empty_conv)
  have grow: "closeCalls (elapse (3000 - d) ?s2)
      = closeCalls ?s2
        @ replicate (length (filter (\<lambda>t. t \<le> 3000 - d) (timers ?s2))) h"
    by (simp add: elapse_open [OF e2])
  have k: "\<exists>k. 0 < k \<and> closeCalls (elapse (3000 - d) ?s2) = closeCalls ?s2 @ replicate k h"
    using grow due by blast
  have "h \<in> set (closeCalls (elapse (3000 - d) ?s2))"
    using due by (simp add: grow)
  moreover have "isProcessing (elapse (3000 - d) ?s2)"
    "steps (elapse (3000 - d) ?s2) = [kept e]"
    using p2 by (simp_all add: elapse_open [OF e2])
  ultimately show ?thesis
    using t2 s1(2) k by (simp add: connectionOpen_def)
qed

theorem stale_timer_closes_new_job_witness:
  "closeCalls (elapse 2000 (onmessage vueKept (elapse 1000
       (onmessage vueKept mounted (Some (progressEvent ''complete'' (ascii ''done'') 10))))
       (Some (progressEvent ''start'' (ascii ''again'') 11)))) = [0]
   \<and> \<not> connectionOpen (elapse 2000 (onmessage vueKept (elapse 1000
       (onmessage vueKept mounted (Some (progressEvent ''complete'' (ascii ''done'') 10))))
       (Some (progressEvent ''start'' (ascii ''again'') 11)))) 0"
proof -
  have l: "(1000::nat) < 3000"
    by simp
  note w = stale_timer_closes_new_job
      [OF mounted_fields(5) hasType_progressEvent [of "''complete''" "ascii ''done''" 10]
          hasType_progressEvent [of "''start''" "ascii ''again''" 11] l,
        where kept = vueKept]
  have a: "\<not> connectionOpen (elapse (3000 - 1000) (onmessage vueKept (elapse 1000
       (onmessage vueKept mounted (Some (progressEvent ''complete'' (ascii ''done'') 10))))
       (Some (progressEvent ''start'' (ascii ''again'') 11)))) 0"
    using w by blast
  have b: "closeCalls (elapse 2000 (onmessage vueKept (elapse 1000
       (onmessage vueKept mounted (Some (progressEvent ''complete'' (ascii ''done'') 10))))
       (Some (progressEvent ''start'' (ascii ''again'') 11)))) = [0]"
    by (simp add: onmessage_start onmessage_complete hasType_progressEvent elapse_def
        mounted_fields close_eventSource_def)
  from a b show ?thesis
    by simp
qed


section \<open>File links in step messages\<close>

text \<open>The captured groups: when the first candidate of a group already fits, it is taken.\<close>

lemma rx_match_group_greedy:
  assumes "xs \<noteq> []" and "c \<notin> set xs" and "rx_match p (c # r) = Some (caps, rest)"
  shows "rx_match (GroupNotPlus c # p) (xs @ c # r) = Some (xs # caps, rest)"
proof -
  have run: "takeWhile (\<lambda>x. x \<noteq> c) (xs @ c # r) = xs"
    using assms(2) by (auto simp add: takeWhile_tail)
  obtain n where n: "length xs = Suc n"
    using assms(1) by (cases xs) auto
  have cands: "rev [1..<Suc (length xs)] = length xs # rev [1..<length xs]"
    by (simp add: n)
  let ?attempt = "\<lambda>n. case rx_match p (drop n (xs @ c # r)) of
                   None \<Rightarrow> None
                 | Some (caps, rest) \<Rightarrow> Some (take n (xs @ c # r) # caps, rest)"
  have longest: "?attempt (length xs) = Some (xs # caps, rest)"
    by (simp add: assms(3))
  have "rx_match (GroupNotPlus c # p) (xs @ c # r)
      = firstSome (map ?attempt (rev [1..<Suc (length xs)]))"
    by (simp only: rx_match.simps run)
  also have "\<dots> = firstSome (?attempt (length xs) # map ?attempt (rev [1..<length xs]))"
    by (simp only: cands list.map)
  also have "\<dots> = Some (xs # caps, rest)"
    by (simp only: longest firstSome.simps)
  finally show ?thesis .
qed

lemma linkPattern_Nil: "rx_match linkPattern [] = None"
  by (simp add: linkPattern_def)

lemma linkPattern_token:
  assumes "label \<noteq> []" and "0x5D \<notin> set label" and "path \<noteq> []" and "0x29 \<notin> set path"
  shows "rx_match linkPattern (token label path @ rest) = Some ([label, path], rest)"
proof -
  have 1: "rx_match [Chr 0x29] (0x29 # rest) = Some ([], rest)"
    by simp
  have 2: "rx_match [GroupNotPlus 0x29, Chr 0x29] (path @ 0x29 # rest) = Some ([path], rest)"
    using assms(3,4) 1 by (rule rx_match_group_greedy)
  have 3: "rx_match [Chr 0x5D, Chr 0x28, GroupNotPlus 0x29, Chr 0x29]
      (0x5D # 0x28 # path @ 0x29 # rest) = Some ([path], rest)"
    using 2 by simp
  have 4: "rx_match [GroupNotPlus 0x5D, Chr 0x5D, Chr 0x28, GroupNotPlus 0x29, Chr 0x29]
      (label @ 0x5D # 0x28 # path @ 0x29 # rest) = Some ([label, path], rest)"
    using assms(1,2) 3 by (rule rx_match_group_greedy)
  have "token label path @ rest
      = 0xD83D # 0xDCC4 # 0x20 # 0x5B # label @ 0x5D # 0x28 # path @ 0x29 # rest"
    by (simp add: token_def fileEmoji_def ascii_def)
  then show ?thesis
    using 4 by (simp add: linkPattern_def)
qed

lemma expand_linkTemplate:
  "expand linkTemplate [label, path]
     = anchor (backendOrigin @ path) (fileEmoji @ ascii '' '' @ label)"
  by (simp add: linkTemplate_def anchor_def backendOrigin_def ascii_def)

lemma replaceAll_token:
  assumes "label \<noteq> []" and "0x5D \<notin> set label" and "path \<noteq> []" and "0x29 \<notin> set path"
  shows "replaceAll linkPattern f (token label path @ rest)
     = f [label, path] @ replaceAll linkPattern f rest"
proof -
  obtain xs where xs: "token label path @ rest = 0xD83D # xs" "length rest \<le> length xs"
    by (simp add: token_def fileEmoji_def)
  have "rx_match linkPattern (token label path @ rest) = Some ([label, path], rest)"
    using assms by (rule linkPattern_token)
  then have "rx_match linkPattern (0xD83D # xs) = Some ([label, path], rest)"
    unfolding xs(1) .
  then show ?thesis
    using xs by simp
qed

lemma replaceAll_newline:
  "replaceAll [Chr 0x0A] (expand [Txt (ascii ''<br>'')]) s = lineBreaks s"
  by (induction s) (simp_all add: lineBreaks_def)

text \<open>Whatever the expression finds is a token: backtracking finds nothing else.\<close>

lemma firstSome_map:
  "firstSome (map f ns) = Some v \<Longrightarrow> \<exists>n\<in>set ns. f n = Some v"
proof (induction ns)
  case Nil
  then show ?case by simp
next
  case (Cons n ns)
  then show ?case by (cases "f n") auto
qed

lemma rx_match_Chr:
  "rx_match (Chr c # p) s = Some v \<Longrightarrow> \<exists>xs. s = c # xs \<and> rx_match p xs = Some v"
  by (cases s) (auto split: if_splits)

lemma rx_match_group:
  assumes "rx_match (GroupNotPlus c # p) s = Some (caps, rest)"
  shows "\<exists>n caps'. 1 \<le> n \<and> n \<le> length (takeWhile (\<lambda>x. x \<noteq> c) s)
     \<and> rx_match p (drop n s) = Some (caps', rest) \<and> caps = take n s # caps'"
proof -
  from assms obtain n where n: "n \<in> set (rev [1..<Suc (length (takeWhile (\<lambda>x. x \<noteq> c) s))])"
    and m: "(case rx_match p (drop n s) of None \<Rightarrow> None
             | Some (caps, rest) \<Rightarrow> Some (take n s # caps, rest)) = Some (caps, rest)"
    by (auto simp only: rx_match.simps dest!: firstSome_map)
  from m obtain caps' where "rx_match p (drop n s) = Some (caps', rest)" "caps = take n s # caps'"
    by (auto split: option.splits)
  with n show ?thesis by auto
qed

lemma rx_match_group_Chr:
  assumes "rx_match (GroupNotPlus c # Chr c # p) s = Some (caps, rest)"
  shows "\<exists>l xs caps'. s = l @ c # xs \<and> l \<noteq> [] \<and> c \<notin> set l
     \<and> rx_match p xs = Some (caps', rest) \<and> caps = l # caps'"
proof -
  from rx_match_group [OF assms] obtain n caps' where n: "1 \<le> n"
    "n \<le> length (takeWhile (\<lambda>x. x \<noteq> c) s)"
    and m: "rx_match (Chr c # p) (drop n s) = Some (caps', rest)"
    and c: "caps = take n s # caps'"
    by blast
  from rx_match_Chr [OF m] obtain xs where xs: "drop n s = c # xs"
    "rx_match p xs = Some (caps', rest)"
    by blast
  have "take n (takeWhile (\<lambda>x. x \<noteq> c) s)
      = take n (take (length (takeWhile (\<lambda>x. x \<noteq> c) s)) s)"
    by (simp only: takeWhile_eq_take [symmetric])
  also have "\<dots> = take n s"
    using n(2) by (simp add: min_absorb1)
  finally have "set (take n s) \<subseteq> set (takeWhile (\<lambda>x. x \<noteq> c) s)"
    by (metis set_take_subset)
  then have "c \<notin> set (take n s)"
    by (auto dest: set_takeWhileD)
  moreover have "take n s \<noteq> []"
    using n xs(1) by (cases s) auto
  moreover have "s = take n s @ c # xs"
    using xs(1) by (metis append_take_drop_id)
  ultimately show ?thesis
    using xs(2) c by blast
qed

lemma linkPattern_sound:
  assumes "rx_match linkPattern s = Some (caps, rest)"
  shows "\<exists>label path. wellFormedLink label path \<and> caps = [label, path]
     \<and> s = token label path @ rest"
proof -
  from assms have 0: "rx_match (Chr 0xD83D # Chr 0xDCC4 # Chr 0x20 # Chr 0x5B
      # [GroupNotPlus 0x5D, Chr 0x5D, Chr 0x28, GroupNotPlus 0x29, Chr 0x29]) s
      = Some (caps, rest)"
    by (simp only: linkPattern_def)
  from rx_match_Chr [OF 0] obtain s1 where s0: "s = 0xD83D # s1"
    and 1: "rx_match (Chr 0xDCC4 # Chr 0x20 # Chr 0x5B
      # [GroupNotPlus 0x5D, Chr 0x5D, Chr 0x28, GroupNotPlus 0x29, Chr 0x29]) s1
      = Some (caps, rest)"
    by blast
  from rx_match_Chr [OF 1] obtain s2 where s1: "s1 = 0xDCC4 # s2"
    and 2: "rx_match (Chr 0x20 # Chr 0x5B
      # [GroupNotPlus 0x5D, Chr 0x5D, Chr 0x28, GroupNotPlus 0x29, Chr 0x29]) s2
      = Some (caps, rest)"
    by blast
  from rx_match_Chr [OF 2] obtain s3 where s2: "s2 = 0x20 # s3"
    and 3: "rx_match (Chr 0x5B
      # [GroupNotPlus 0x5D, Chr 0x5D, Chr 0x28, GroupNotPlus 0x29, Chr 0x29]) s3
      = Some (caps, rest)"
    by blast
  from rx_match_Chr [OF 3] obtain s4 where s3: "s3 = 0x5B # s4"
    and 4: "rx_match [GroupNotPlus 0x5D, Chr 0x5D, Chr 0x28, GroupNotPlus 0x29, Chr 0x29] s4
      = Some (caps, rest)"
    by blast
  have s: "s = 0xD83D # 0xDCC4 # 0x20 # 0x5B # s4"
    by (simp only: s0 s1 s2 s3)
  from rx_match_group_Chr [OF 4] obtain label s5 caps5 where l: "s4 = label @ 0x5D # s5"
    "label \<noteq> []" "0x5D \<notin> set label"
    and 5: "rx_match [Chr 0x28, GroupNotPlus 0x29, Chr 0x29] s5 = Some (caps5, rest)"
    and c: "caps = label # caps5"
    by blast
  from rx_match_Chr [OF 5] obtain s6 where s5: "s5 = 0x28 # s6"
    and 6: "rx_match [GroupNotPlus 0x29, Chr 0x29] s6 = Some (caps5, rest)"
    by blast
  from rx_match_group_Chr [OF 6] obtain path s7 caps7 where p: "s6 = path @ 0x29 # s7"
    "path \<noteq> []" "0x29 \<notin> set path"
    and 7: "rx_match [] s7 = Some (caps7, rest)"
    and c5: "caps5 = path # caps7"
    by blast
  from 7 have "caps7 = []" "s7 = rest"
    by simp_all
  have t: "s = token label path @ rest"
    unfolding s l(1) s5 p(1) \<open>s7 = rest\<close>
    by (simp add: token_def fileEmoji_def ascii_def)
  have "wellFormedLink label path"
    using l(2,3) p(2,3) by (simp add: wellFormedLink_def)
  moreover have "caps = [label, path]"
    using c c5 \<open>caps7 = []\<close> by simp
  ultimately show ?thesis
    using t by blast
qed

lemma linkPattern_complete:
  "wellFormedLink label path \<Longrightarrow>
   rx_match linkPattern (token label path @ rest) = Some ([label, path], rest)"
  by (simp add: wellFormedLink_def linkPattern_token)

lemma token_Cons:
  "\<exists>xs. token label path @ rest = 0xD83D # xs \<and> length rest \<le> length xs"
  by (simp add: token_def fileEmoji_def)

text \<open>The first \<^verbatim>\<open>replace\<close> call alone.\<close>

lemma linkify_Nil: "linkify [] = []"
  by (simp add: linkify_def linkPattern_Nil)

lemma linkify_token:
  assumes "wellFormedLink label path"
  shows "linkify (token label path @ rest) = fileLink label path @ linkify rest"
  using assms
  by (simp add: linkify_def fileLink_def wellFormedLink_def replaceAll_token expand_linkTemplate)

lemma linkify_copy:
  assumes "\<forall>label path rest. wellFormedLink label path \<longrightarrow> x # xs \<noteq> token label path @ rest"
  shows "linkify (x # xs) = x # linkify xs"
proof (cases "rx_match linkPattern (x # xs)")
  case None
  then show ?thesis by (simp add: linkify_def)
next
  case (Some v)
  then obtain caps rest where "rx_match linkPattern (x # xs) = Some (caps, rest)"
    by (cases v) auto
  from linkPattern_sound [OF this] assms show ?thesis
    by blast
qed

lemma linksRewritten_unique:
  "linksRewritten message out \<Longrightarrow> out = linkify message"
  by (induction rule: linksRewritten.induct)
    (simp_all add: linkify_Nil linkify_token linkify_copy)

lemma linksRewritten_linkify:
  "linksRewritten message (linkify message)"
proof (induction message rule: length_induct)
  case (1 m)
  show ?case
  proof (cases m)
    case Nil
    then show ?thesis by (simp add: linkify_Nil linksRewritten.finished)
  next
    case (Cons x xs)
    show ?thesis
    proof (cases "rx_match linkPattern m")
      case None
      have no: "\<forall>label path rest. wellFormedLink label path \<longrightarrow>
          x # xs \<noteq> token label path @ rest"
        using None Cons linkPattern_complete by fastforce
      have "linksRewritten xs (linkify xs)"
        using 1 Cons by simp
      with no have "linksRewritten (x # xs) (x # linkify xs)"
        by (rule linksRewritten.copy)
      then show ?thesis
        using no Cons by (simp add: linkify_copy)
    next
      case (Some v)
      then obtain caps rest where "rx_match linkPattern m = Some (caps, rest)"
        by (cases v) auto
      from linkPattern_sound [OF this] obtain label path where w: "wellFormedLink label path"
        and m: "m = token label path @ rest"
        by blast
      have "length rest < length m"
        using m token_Cons [of label path rest] by auto
      with 1 have "linksRewritten rest (linkify rest)"
        by simp
      with w have "linksRewritten (token label path @ rest) (fileLink label path @ linkify rest)"
        by (rule linksRewritten.link)
      then show ?thesis
        using w m by (simp add: linkify_token)
    qed
  qed
qed

text \<open>
  Claim C7.  Every message has exactly one rewriting in which, read from the left,
  each token (the emoji, a label in square brackets, a path in round brackets) is
  replaced by a link whose address is the backend origin followed by the path and
  whose text is the emoji and the label, and everything else is copied; and
  \<^verbatim>\<open>formatMessage\<close> yields that rewriting with the line feeds then turned into
  \<^verbatim>\<open><br>\<close>.  For the message with the token for \<^verbatim>\<open>report.docx\<close> at \<^verbatim>\<open>/files/abc\<close>
  the result is the link to \<^verbatim>\<open>http://localhost:8765/files/abc\<close> with the emoji and
  \<^verbatim>\<open>report.docx\<close> as its text.
\<close>

theorem file_links_rewritten:
  "(\<exists>!out. linksRewritten message out)
   \<and> (\<forall>out. linksRewritten message out \<longrightarrow> formatMessage message = lineBreaks out)
   \<and> formatMessage (fileEmoji @ ascii '' [report.docx](/files/abc)'')
     = anchor (ascii ''http://localhost:8765/files/abc'') (fileEmoji @ ascii '' report.docx'')"
proof -
  have f: "formatMessage m = lineBreaks (linkify m)" for m
    by (simp add: formatMessage_def linkify_def replaceAll_newline)
  have u: "\<exists>!out. linksRewritten message out"
    using linksRewritten_linkify linksRewritten_unique by blast
  have g: "\<forall>out. linksRewritten message out \<longrightarrow> formatMessage message = lineBreaks out"
    using linksRewritten_unique f by blast
  have w: "wellFormedLink (ascii ''report.docx'') (ascii ''/files/abc'')"
    by (simp add: wellFormedLink_def ascii_def)
  have "formatMessage (token (ascii ''report.docx'') (ascii ''/files/abc'') @ [])
      = lineBreaks (fileLink (ascii ''report.docx'') (ascii ''/files/abc'') @ [])"
    unfolding f linkify_token [OF w] linkify_Nil ..
  also have "token (ascii ''report.docx'') (ascii ''/files/abc'') @ []
      = fileEmoji @ ascii '' [report.docx](/files/abc)''"
    by (simp add: token_def ascii_def)
  also have "lineBreaks (fileLink (ascii ''report.docx'') (ascii ''/files/abc'') @ [])
      = anchor (ascii ''http://localhost:8765/files/abc'') (fileEmoji @ ascii '' report.docx'')"
    by (simp add: lineBreaks_def fileLink_def anchor_def backendOrigin_def fileEmoji_def
        ascii_def)
  finally show ?thesis
    using u g by blast
qed

theorem file_links_rewritten_witness:
  "linksRewritten (ascii ''ok'' @ [0x0A] @ token (ascii ''a.txt'') (ascii ''/f''))
     (ascii ''ok'' @ [0x0A] @ fileLink (ascii ''a.txt'') (ascii ''/f''))
   \<and> formatMessage (ascii ''ok'' @ [0x0A] @ token (ascii ''a.txt'') (ascii ''/f''))
     = ascii ''ok<br>'' @ anchor (ascii ''http://localhost:8765/f'') (fileEmoji @ ascii '' a.txt'')"
proof -
  have w: "wellFormedLink (ascii ''a.txt'') (ascii ''/f'')"
    by (simp add: wellFormedLink_def ascii_def)
  have n: "\<forall>label path rest. wellFormedLink label path \<longrightarrow> x # xs \<noteq> token label path @ rest"
    if "x \<noteq> 0xD83D" for x xs
    using that by (simp add: token_def fileEmoji_def)
  have c: "linksRewritten (x # xs) (x # out)" if "linksRewritten xs out" "x \<noteq> 0xD83D"
    for x xs out
    using n [OF that(2)] that(1) by (rule linksRewritten.copy)
  have "linksRewritten (token (ascii ''a.txt'') (ascii ''/f'') @ [])
      (fileLink (ascii ''a.txt'') (ascii ''/f'') @ [])"
    using w linksRewritten.finished by (rule linksRewritten.link)
  then have "linksRewritten (0x0A # token (ascii ''a.txt'') (ascii ''/f'') @ [])
      (0x0A # fileLink (ascii ''a.txt'') (ascii ''/f'') @ [])"
    by (rule c) simp
  then have "linksRewritten (0x6B # 0x0A # token (ascii ''a.txt'') (ascii ''/f'') @ [])
      (0x6B # 0x0A # fileLink (ascii ''a.txt'') (ascii ''/f'') @ [])"
    by (rule c) simp
  then have "linksRewritten (0x6F # 0x6B # 0x0A # token (ascii ''a.txt'') (ascii ''/f'') @ [])
      (0x6F # 0x6B # 0x0A # fileLink (ascii ''a.txt'') (ascii ''/f'') @ [])"
    by (rule c) simp
  then have r: "linksRewritten (ascii ''ok'' @ [0x0A] @ token (ascii ''a.txt'') (ascii ''/f''))
      (ascii ''ok'' @ [0x0A] @ fileLink (ascii ''a.txt'') (ascii ''/f''))"
    by (simp add: ascii_def)
  have "formatMessage (ascii ''ok'' @ [0x0A] @ token (ascii ''a.txt'') (ascii ''/f''))
      = lineBreaks (ascii ''ok'' @ [0x0A] @ fileLink (ascii ''a.txt'') (ascii ''/f''))"
    using file_links_rewritten [of "ascii ''ok'' @ [0x0A] @ token (ascii ''a.txt'') (ascii ''/f'')"] r
    by blast
  also have "\<dots> = ascii ''ok<br>'' @ anchor (ascii ''http://localhost:8765/f'')
      (fileEmoji @ ascii '' a.txt'')"
    by (simp add: lineBreaks_def fileLink_def anchor_def backendOrigin_def fileEmoji_def
        ascii_def)
  finally show ?thesis
    using r by blast
qed

end
